theory Spec2Isabelle
  imports Main "HOL-Library.Word"
begin

section \<open>Strings of the XML language server\<close>

text \<open>
  A JavaScript string is a sequence of UTF-16 code units. The formatter only compares
  code units with each other, so a code unit is a 16-bit word and a string is a list.
  \<open>str\<close> writes an ASCII literal as such a string.
\<close>

type_synonym jschar = "16 word"
type_synonym jsstring = "jschar list"

definition str :: "string \<Rightarrow> jsstring" where
  "str s = map (\<lambda>c. of_char c) s"

abbreviation LF :: jschar where "LF \<equiv> 0x0A"
abbreviation CR :: jschar where "CR \<equiv> 0x0D"
abbreviation SP :: jschar where "SP \<equiv> 0x20"
abbreviation TAB :: jschar where "TAB \<equiv> 0x09"

text \<open>
  The code units that \<open>String.prototype.trim\<close> and \<open>trimEnd\<close> strip: the ECMAScript
  WhiteSpace and LineTerminator productions.
\<close>

definition isWhiteSpace :: "jschar \<Rightarrow> bool" where
  "isWhiteSpace c = (c \<in> set [0x09, 0x0A, 0x0B, 0x0C, 0x0D, 0x20, 0xA0, 0x1680,
     0x2000, 0x2001, 0x2002, 0x2003, 0x2004, 0x2005, 0x2006, 0x2007, 0x2008, 0x2009, 0x200A,
     0x2028, 0x2029, 0x202F, 0x205F, 0x3000, 0xFEFF])"

definition trimStart :: "jsstring \<Rightarrow> jsstring" where
  "trimStart s = dropWhile isWhiteSpace s"

definition trimEnd :: "jsstring \<Rightarrow> jsstring" where
  "trimEnd s = rev (dropWhile isWhiteSpace (rev s))"

definition trim :: "jsstring \<Rightarrow> jsstring" where
  "trim s = trimEnd (trimStart s)"

definition startsWith :: "jsstring \<Rightarrow> jsstring \<Rightarrow> bool" where
  "startsWith s p = (take (length p) s = p)"

definition endsWith :: "jsstring \<Rightarrow> jsstring \<Rightarrow> bool" where
  "endsWith s p = (length p \<le> length s \<and> drop (length s - length p) s = p)"

fun includes_str :: "jsstring \<Rightarrow> jsstring \<Rightarrow> bool" where
  "includes_str [] sub = (sub = [])"
| "includes_str (c # cs) sub = (startsWith (c # cs) sub \<or> includes_str cs sub)"

text \<open>\<open>s.repeat(n)\<close> for a count that is not negative.\<close>

definition repeat :: "jsstring \<Rightarrow> nat \<Rightarrow> jsstring" where
  "repeat s n = concat (replicate n s)"

text \<open>
  \<open>content.split(/\r?\n/)\<close>: scanning from the left, a line feed, or a carriage return
  directly followed by a line feed, ends the current piece; every other code unit
  (a lone carriage return too) belongs to the piece. The empty string gives one empty piece.
\<close>

fun split_lines :: "jsstring \<Rightarrow> jsstring list" where
  "split_lines [] = [Nil]"
| "split_lines (c # cs) =
     (if c = LF then [] # split_lines cs
      else if c = CR \<and> take 1 cs = [LF] then [] # split_lines (drop 1 cs)
      else (case split_lines cs of [] \<Rightarrow> [c] # [] | l # ls \<Rightarrow> (c # l) # ls))"

text \<open>\<open>s.substring(a, b)\<close>: both indices are clamped to the length and swapped when out of order.\<close>

definition substring :: "jsstring \<Rightarrow> nat \<Rightarrow> nat \<Rightarrow> jsstring" where
  "substring s a b =
     (let a' = min a (length s); b' = min b (length s)
      in take (max a' b' - min a' b') (drop (min a' b') s))"

section \<open>Options, settings, documents and edits\<close>

text \<open>
  \<open>FormattingOptions\<close> of the language server protocol: \<open>tabSize\<close> is declared
  \<open>uinteger\<close> there, \<open>insertSpaces\<close> is a boolean.
\<close>

record FormattingOptions =
  tabSize :: nat
  insertSpaces :: bool

text \<open>
  The \<open>format\<close> section of \<open>Settings\<close>. Every member is optional in the source;
  \<open>None\<close> is an absent (or null) member.
\<close>

record FormatSettings =
  enable :: "bool option"
  wrapLineLength :: "int option"
  preserveNewLines :: "bool option"
  maxPreserveNewLines :: "int option"
  indentInnerXml :: "bool option"
  wrapAttributes :: "string option"
  wrapAttributesIndentSize :: "int option"
  unformattedContentDelimiter :: "string option"

record XmlSettings =
  format :: "FormatSettings option"

record Settings =
  xml :: "XmlSettings option"

text \<open>The optional chain \<open>settings.xml?.format\<close>.\<close>

definition xml_format :: "Settings \<Rightarrow> FormatSettings option" where
  "xml_format settings = (case xml settings of None \<Rightarrow> None | Some x \<Rightarrow> format x)"

text \<open>\<open>settings.xml?.format?.enable\<close>.\<close>

definition format_enable :: "Settings \<Rightarrow> bool option" where
  "format_enable settings = (case xml_format settings of None \<Rightarrow> None | Some f \<Rightarrow> enable f)"

text \<open>\<open>(settings.xml?.format || {}).preserveNewLines\<close>.\<close>

definition format_preserveNewLines :: "Settings \<Rightarrow> bool option" where
  "format_preserveNewLines settings =
     (case xml_format settings of None \<Rightarrow> None | Some f \<Rightarrow> preserveNewLines f)"

record Position =
  line :: nat
  character :: nat

record Range =
  start_pos :: Position
  end_pos :: Position

text \<open>
  A \<open>TextDocument\<close> of the text-document library: its content, and its two coordinate
  methods \<open>positionAt\<close> and \<open>offsetAt\<close>, which belong to the library and are taken as
  they come with the document.
\<close>

record TextDocument =
  uri :: string
  content :: jsstring
  positionAt :: "nat \<Rightarrow> Position"
  offsetAt :: "Position \<Rightarrow> nat"

text \<open>\<open>document.getText(range?)\<close>: the whole content, or the substring between the offsets of the range.\<close>

definition getText :: "TextDocument \<Rightarrow> Range option \<Rightarrow> jsstring" where
  "getText document r =
     (case r of None \<Rightarrow> content document
      | Some rg \<Rightarrow> substring (content document)
          (offsetAt document (start_pos rg)) (offsetAt document (end_pos rg)))"

record TextEdit =
  range_edit :: Range
  newText :: jsstring

section \<open>The formatter\<close>

text \<open>The three variables of the loop of \<open>formatXml\<close>. \<open>depth\<close> is a JavaScript number.\<close>

record LoopState =
  formatted :: jsstring
  depth :: int
  preserveWhitespace :: bool

text \<open>
  \<open>indentChar.repeat(depth)\<close>. The count is \<open>depth\<close>, which every iteration keeps at or above
  zero (lemma \<open>formatLine_depth_nonneg\<close>), so the \<open>RangeError\<close> of a negative count never arises.
\<close>

definition indent :: "jsstring \<Rightarrow> int \<Rightarrow> jsstring" where
  "indent indentChar d = repeat indentChar (nat d)"

text \<open>One iteration of the loop on the raw line \<open>lines[i]\<close>, branch by branch as in the source.\<close>

definition formatLine :: "jsstring \<Rightarrow> bool \<Rightarrow> LoopState \<Rightarrow> jsstring \<Rightarrow> LoopState" where
  "formatLine indentChar keepBlank st raw =
     (let ln = trim raw in
      if ln = [] then
        (if keepBlank then st\<lparr>formatted := formatted st @ [LF]\<rparr> else st)
      else if startsWith ln (str ''<?'') \<or> startsWith ln (str ''<!--'') then
        st\<lparr>formatted := formatted st @ ln @ [LF]\<rparr>
      else if includes_str ln (str ''<![CDATA['') then
        st\<lparr>formatted := formatted st @ indent indentChar (depth st) @ ln @ [LF],
           preserveWhitespace := \<not> includes_str ln (str '']]>'')\<rparr>
      else if preserveWhitespace st then
        st\<lparr>formatted := formatted st @ ln @ [LF],
           preserveWhitespace := \<not> includes_str ln (str '']]>'')\<rparr>
      else if includes_str ln (str ''/>'') then
        st\<lparr>formatted := formatted st @ indent indentChar (depth st) @ ln @ [LF]\<rparr>
      else if startsWith ln (str ''</'') then
        (let d = max 0 (depth st - 1) in
         st\<lparr>formatted := formatted st @ indent indentChar d @ ln @ [LF], depth := d\<rparr>)
      else if startsWith ln (str ''<'') \<and> \<not> startsWith ln (str ''<!'') then
        st\<lparr>formatted := formatted st @ indent indentChar (depth st) @ ln @ [LF],
           depth := (if \<not> endsWith ln (str ''/>'') then depth st + 1 else depth st)\<rparr>
      else if ln \<noteq> [] \<and> \<not> startsWith ln (str ''<'') then
        st\<lparr>formatted := formatted st @ indent indentChar (depth st) @ ln @ [LF]\<rparr>
      else
        st\<lparr>formatted := formatted st @ indent indentChar (depth st) @ ln @ [LF]\<rparr>)"

text \<open>The loop over the lines, from the first to the last.\<close>

fun formatLoop :: "jsstring \<Rightarrow> bool \<Rightarrow> jsstring list \<Rightarrow> LoopState \<Rightarrow> LoopState" where
  "formatLoop indentChar keepBlank [] st = st"
| "formatLoop indentChar keepBlank (raw # rest) st =
     formatLoop indentChar keepBlank rest (formatLine indentChar keepBlank st raw)"

text \<open>The states of the loop: the one it starts in and the one after each iteration.\<close>

fun loopStates :: "jsstring \<Rightarrow> bool \<Rightarrow> jsstring list \<Rightarrow> LoopState \<Rightarrow> LoopState list" where
  "loopStates indentChar keepBlank [] st = [st]"
| "loopStates indentChar keepBlank (raw # rest) st =
     st # loopStates indentChar keepBlank rest (formatLine indentChar keepBlank st raw)"

text \<open>\<open>options.tabSize || 2\<close>, and the indent unit built from it.\<close>

definition indentSize :: "FormattingOptions \<Rightarrow> nat" where
  "indentSize options = (if tabSize options = 0 then 2 else tabSize options)"

definition indentChar_of :: "FormattingOptions \<Rightarrow> jsstring" where
  "indentChar_of options =
     (if insertSpaces options then repeat [SP] (indentSize options) else [TAB])"

text \<open>\<open>xmlSettings.preserveNewLines !== false\<close>.\<close>

definition keepBlank_of :: "Settings \<Rightarrow> bool" where
  "keepBlank_of settings = (format_preserveNewLines settings \<noteq> Some False)"

definition initialState :: LoopState where
  "initialState = \<lparr>formatted = [], depth = 0, preserveWhitespace = False\<rparr>"

definition formatXml :: "jsstring \<Rightarrow> FormattingOptions \<Rightarrow> Settings \<Rightarrow> jsstring" where
  "formatXml text options settings =
     trimEnd (formatted (formatLoop (indentChar_of options) (keepBlank_of settings)
                           (split_lines text) initialState))"

definition formatXmlDocument :: "TextDocument \<Rightarrow> FormattingOptions \<Rightarrow> Settings \<Rightarrow> TextEdit list" where
  "formatXmlDocument document options settings =
     (let text = getText document None;
          fmt = formatXml text options settings
      in if fmt = text then []
         else [\<lparr>range_edit = \<lparr>start_pos = positionAt document 0,
                                end_pos = positionAt document (length text)\<rparr>,
                 newText = fmt\<rparr>])"

definition formatXmlDocumentRange ::
  "TextDocument \<Rightarrow> Range \<Rightarrow> FormattingOptions \<Rightarrow> Settings \<Rightarrow> TextEdit list" where
  "formatXmlDocumentRange document rg options settings =
     (let text = getText document (Some rg);
          fmt = formatXml text options settings
      in if fmt = text then []
         else [\<lparr>range_edit = rg, newText = fmt\<rparr>])"

section \<open>The request handlers\<close>

text \<open>
  What the two formatting handlers of \<open>startServer\<close> read: the open documents by URI and
  the global settings (\<open>hasConfigurationCapability\<close> is the constant \<open>false\<close>, so
  \<open>getDocumentSettings\<close> resolves to the global settings for every resource).
\<close>

record Server =
  documents :: "string \<rightharpoonup> TextDocument"
  globalSettings :: Settings

definition getDocumentSettings :: "Server \<Rightarrow> string \<Rightarrow> Settings" where
  "getDocumentSettings srv resource = globalSettings srv"

record DocumentFormattingParams =
  textDocument :: string
  options :: FormattingOptions

record DocumentRangeFormattingParams =
  textDocument_r :: string
  range_r :: Range
  options_r :: FormattingOptions

definition onDocumentFormatting :: "Server \<Rightarrow> DocumentFormattingParams \<Rightarrow> TextEdit list" where
  "onDocumentFormatting srv params =
     (case documents srv (textDocument params) of
        None \<Rightarrow> []
      | Some document \<Rightarrow>
          (let settings = getDocumentSettings srv (textDocument params)
           in if format_enable settings = Some False then []
              else formatXmlDocument document (options params) settings))"

definition onDocumentRangeFormatting ::
  "Server \<Rightarrow> DocumentRangeFormattingParams \<Rightarrow> TextEdit list" where
  "onDocumentRangeFormatting srv params =
     (case documents srv (textDocument_r params) of
        None \<Rightarrow> []
      | Some document \<Rightarrow>
          (let settings = getDocumentSettings srv (textDocument_r params)
           in if format_enable settings = Some False then []
              else formatXmlDocumentRange document (range_r params) (options_r params) settings))"

section \<open>The range adapter as the specification words it\<close>

text \<open>
  Extract the substring the range covers, run the pipeline on it alone from a fresh state
  (depth 0, not verbatim), trim the rendered text at the end, and emit one edit on the
  caller's range when the result differs from the substring.
\<close>

definition spec_rangeAdapter ::
  "TextDocument \<Rightarrow> Range \<Rightarrow> FormattingOptions \<Rightarrow> Settings \<Rightarrow> TextEdit list" where
  "spec_rangeAdapter document rg opts settings =
     (let sub = substring (content document)
                  (offsetAt document (start_pos rg)) (offsetAt document (end_pos rg));
          fresh = \<lparr>formatted = [], depth = 0, preserveWhitespace = False\<rparr>;
          result = trimEnd (formatted (formatLoop (indentChar_of opts) (keepBlank_of settings)
                                         (split_lines sub) fresh))
      in if result \<noteq> sub then [\<lparr>range_edit = rg, newText = result\<rparr>] else [])"

section \<open>The lines the loop writes\<close>

text \<open>
  For the proofs, one iteration is read as three functions of the trimmed line and the two
  state variables: the prefix put before the line, the next depth and the next verbatim flag.
  \<open>outLines\<close> lists the lines the loop appends; lemma \<open>formatLoop_formatted\<close> ties them to
  \<open>formatLoop\<close>.
\<close>

definition solid :: "jsstring \<Rightarrow> bool" where
  "solid l = (l \<noteq> [] \<and> \<not> isWhiteSpace (hd l) \<and> \<not> isWhiteSpace (last l))"

definition linePrefix :: "jsstring \<Rightarrow> int \<Rightarrow> bool \<Rightarrow> jsstring \<Rightarrow> jsstring" where
  "linePrefix indentChar d pw ln =
     (if startsWith ln (str ''<?'') \<or> startsWith ln (str ''<!--'') then []
      else if includes_str ln (str ''<![CDATA['') then indent indentChar d
      else if pw then []
      else if includes_str ln (str ''/>'') then indent indentChar d
      else if startsWith ln (str ''</'') then indent indentChar (max 0 (d - 1))
      else indent indentChar d)"

definition nextDepth :: "int \<Rightarrow> bool \<Rightarrow> jsstring \<Rightarrow> int" where
  "nextDepth d pw ln =
     (if startsWith ln (str ''<?'') \<or> startsWith ln (str ''<!--'') then d
      else if includes_str ln (str ''<![CDATA['') then d
      else if pw then d
      else if includes_str ln (str ''/>'') then d
      else if startsWith ln (str ''</'') then max 0 (d - 1)
      else if startsWith ln (str ''<'') \<and> \<not> startsWith ln (str ''<!'') then
        (if \<not> endsWith ln (str ''/>'') then d + 1 else d)
      else d)"

definition nextVerbatim :: "bool \<Rightarrow> jsstring \<Rightarrow> bool" where
  "nextVerbatim pw ln =
     (if startsWith ln (str ''<?'') \<or> startsWith ln (str ''<!--'') then pw
      else if includes_str ln (str ''<![CDATA['') then \<not> includes_str ln (str '']]>'')
      else if pw then \<not> includes_str ln (str '']]>'')
      else pw)"

fun outLines :: "jsstring \<Rightarrow> bool \<Rightarrow> int \<Rightarrow> bool \<Rightarrow> jsstring list \<Rightarrow> jsstring list" where
  "outLines indentChar keepBlank d pw [] = []"
| "outLines indentChar keepBlank d pw (raw # rest) =
     (if trim raw = [] then
        (if keepBlank then [Nil] else []) @ outLines indentChar keepBlank d pw rest
      else (linePrefix indentChar d pw (trim raw) @ trim raw)
           # outLines indentChar keepBlank (nextDepth d pw (trim raw)) (nextVerbatim pw (trim raw)) rest)"

definition rendered :: "jsstring list \<Rightarrow> jsstring" where
  "rendered es = concat (map (\<lambda>e. e @ [LF]) es)"

fun joinLines :: "jsstring list \<Rightarrow> jsstring" where
  "joinLines [] = []"
| "joinLines [e] = e"
| "joinLines (e # e' # es) = e @ LF # joinLines (e' # es)"

definition dropTrailingBlank :: "jsstring list \<Rightarrow> jsstring list" where
  "dropTrailingBlank es = rev (dropWhile (\<lambda>e. e = []) (rev es))"

section \<open>Concrete inputs\<close>

definition scenarioOptions :: FormattingOptions where
  "scenarioOptions = \<lparr>tabSize = 2, insertSpaces = True\<rparr>"

definition noSettings :: Settings where
  "noSettings = \<lparr>xml = None\<rparr>"

definition settingsOf :: "bool option \<Rightarrow> bool option \<Rightarrow> int option \<Rightarrow> Settings" where
  "settingsOf en keep cap =
     \<lparr>xml = Some \<lparr>format = Some \<lparr>enable = en, wrapLineLength = None, preserveNewLines = keep,
        maxPreserveNewLines = cap, indentInnerXml = None, wrapAttributes = None,
        wrapAttributesIndentSize = None, unformattedContentDelimiter = None\<rparr>\<rparr>\<rparr>"

text \<open>A document of one line: position and offset then differ only in form.\<close>

definition singleLineDocument :: "jsstring \<Rightarrow> TextDocument" where
  "singleLineDocument t =
     \<lparr>uri = ''file:///doc.xml'', content = t,
      positionAt = (\<lambda>n. \<lparr>line = 0, character = min n (length t)\<rparr>),
      offsetAt = (\<lambda>p. if line p = 0 then min (character p) (length t) else length t)\<rparr>"

definition serverWith :: "TextDocument \<Rightarrow> Settings \<Rightarrow> Server" where
  "serverWith document settings =
     \<lparr>documents = [uri document \<mapsto> document], globalSettings = settings\<rparr>"


section \<open>Properties of one iteration\<close>

lemma formatLine_depth_nonneg: "0 \<le> depth st \<Longrightarrow> 0 \<le> depth (formatLine ic kb st raw)"
  by (simp add: formatLine_def Let_def)

lemma formatLine_closing_tag:
  "trim raw \<noteq> [] \<Longrightarrow> \<not> startsWith (trim raw) (str ''<?'') \<Longrightarrow>
   \<not> startsWith (trim raw) (str ''<!--'') \<Longrightarrow>
   \<not> includes_str (trim raw) (str ''<![CDATA['') \<Longrightarrow> \<not> preserveWhitespace st \<Longrightarrow>
   \<not> includes_str (trim raw) (str ''/>'') \<Longrightarrow> startsWith (trim raw) (str ''</'') \<Longrightarrow>
   depth (formatLine ic kb st raw) = max 0 (depth st - 1)"
  by (simp add: formatLine_def Let_def)

lemma formatLine_self_closing:
  "includes_str (trim raw) (str ''/>'') \<Longrightarrow> depth (formatLine ic kb st raw) = depth st"
  by (auto simp add: formatLine_def Let_def)

lemma loopStates_depth_nonneg:
  "0 \<le> depth st \<Longrightarrow> s \<in> set (loopStates ic kb ls st) \<Longrightarrow> 0 \<le> depth s"
proof (induction ls arbitrary: st)
  case Nil
  then show ?case by simp
next
  case (Cons raw rest)
  from Cons.prems(2) have "s = st \<or> s \<in> set (loopStates ic kb rest (formatLine ic kb st raw))"
    by simp
  then show ?case
  proof
    assume "s = st"
    with Cons.prems(1) show ?thesis by simp
  next
    assume "s \<in> set (loopStates ic kb rest (formatLine ic kb st raw))"
    with Cons.IH [OF formatLine_depth_nonneg [OF Cons.prems(1)]] show ?thesis .
  qed
qed

lemma loopStates_not_Nil: "loopStates ic kb ls st \<noteq> []"
  by (cases ls) simp_all

lemma last_loopStates: "last (loopStates ic kb ls st) = formatLoop ic kb ls st"
  by (induction ls arbitrary: st) (simp_all add: loopStates_not_Nil)

lemma loopStates_Suc:
  "i < length ls \<Longrightarrow>
   loopStates ic kb ls st ! Suc i = formatLine ic kb (loopStates ic kb ls st ! i) (ls ! i)"
proof (induction ls arbitrary: i st)
  case Nil
  then show ?case by simp
next
  case (Cons raw rest)
  show ?case
  proof (cases i)
    case 0
    then show ?thesis by (cases rest) simp_all
  next
    case (Suc j)
    with Cons.prems have "j < length rest" by simp
    from Cons.IH [OF this] Suc show ?thesis by simp
  qed
qed

section \<open>Lemmas on strings and lines\<close>

subsection \<open>trim\<close>

lemma trimEnd_Nil [simp]: "trimEnd [] = []"
  by (simp add: trimEnd_def)

lemma trim_Nil [simp]: "trim [] = []"
  by (simp add: trim_def trimStart_def)

lemma trimEnd_snoc_ws: "isWhiteSpace c \<Longrightarrow> trimEnd (s @ [c]) = trimEnd s"
  by (simp add: trimEnd_def)

lemma trimEnd_append_ws: "\<forall>c\<in>set w. isWhiteSpace c \<Longrightarrow> trimEnd (s @ w) = trimEnd s"
  by (induction w rule: rev_induct) (simp_all add: trimEnd_snoc_ws flip: append_assoc)

lemma trimEnd_keeps: "s \<noteq> [] \<Longrightarrow> \<not> isWhiteSpace (last s) \<Longrightarrow> trimEnd s = s"
  by (cases s rule: rev_cases) (simp_all add: trimEnd_def)

lemma trimEnd_prefix: "\<exists>zs. s = trimEnd s @ zs"
proof -
  have "rev (takeWhile isWhiteSpace (rev s) @ dropWhile isWhiteSpace (rev s)) = s"
    by (simp only: takeWhile_dropWhile_id rev_rev_ident)
  then have "s = trimEnd s @ rev (takeWhile isWhiteSpace (rev s))"
    by (simp only: rev_append trimEnd_def)
  then show ?thesis ..
qed

lemma trimEnd_last: "trimEnd s \<noteq> [] \<Longrightarrow> \<not> isWhiteSpace (last (trimEnd s))"
  using hd_dropWhile [of isWhiteSpace "rev s"] by (simp add: trimEnd_def last_rev)

lemma trim_solid: "trim raw \<noteq> [] \<Longrightarrow> solid (trim raw)"
proof -
  assume ne: "trim raw \<noteq> []"
  let ?s = "trimStart raw"
  from ne have sne: "?s \<noteq> []" by (auto simp: trim_def)
  then have hd_s: "\<not> isWhiteSpace (hd ?s)"
    using hd_dropWhile [of isWhiteSpace raw] by (simp add: trimStart_def)
  obtain zs where "?s = trimEnd ?s @ zs" using trimEnd_prefix by blast
  with ne have "hd (trim raw) = hd ?s" by (metis hd_append2 trim_def)
  with hd_s ne trimEnd_last [of ?s] show ?thesis by (simp add: solid_def trim_def)
qed

lemma trim_prefix_solid:
  assumes "\<forall>c\<in>set p. isWhiteSpace c" and "solid l"
  shows "trim (p @ l) = l"
proof -
  from assms(2) have l: "l \<noteq> []" "\<not> isWhiteSpace (hd l)" "\<not> isWhiteSpace (last l)"
    by (simp_all add: solid_def)
  have "trimStart (p @ l) = dropWhile isWhiteSpace l"
    using assms(1) by (simp add: trimStart_def dropWhile_append2)
  also have "\<dots> = l" using l by (cases l) simp_all
  finally show ?thesis using l by (simp add: trim_def trimEnd_keeps)
qed

lemma set_trim: "set (trim raw) \<subseteq> set raw"
proof -
  have "set (trimEnd s) \<subseteq> set s" for s
    using set_dropWhileD [of _ isWhiteSpace "rev s"] by (auto simp: trimEnd_def)
  moreover have "set (trimStart s) \<subseteq> set s" for s
    using set_dropWhileD [of _ isWhiteSpace s] by (auto simp: trimStart_def)
  ultimately show ?thesis unfolding trim_def by blast
qed


subsection \<open>split\<close>

lemma split_lines_no_LF: "LF \<notin> set e \<Longrightarrow> split_lines e = [e]"
proof (induction e)
  case Nil
  then show ?case by simp
next
  case (Cons c e)
  then have "take 1 e \<noteq> [LF]" by (cases e) auto
  with Cons show ?case by simp
qed

lemma split_lines_line:
  "LF \<notin> set e \<Longrightarrow> e = [] \<or> last e \<noteq> CR \<Longrightarrow> split_lines (e @ LF # rest) = e # split_lines rest"
proof (induction e)
  case Nil
  then show ?case by simp
next
  case (Cons c e)
  show ?case
  proof (cases e)
    case Nil
    with Cons.prems show ?thesis by simp
  next
    case (Cons c' e')
    with Cons.prems Cons.IH show ?thesis by auto
  qed
qed

lemma split_lines_pieces: "l \<in> set (split_lines t) \<Longrightarrow> LF \<notin> set l"
proof (induction t arbitrary: l rule: split_lines.induct)
  case 1
  then show ?case by simp
next
  case (2 c cs)
  then show ?case
    by (auto split: if_splits list.splits)
qed

lemma split_lines_joinLines:
  "es \<noteq> [] \<Longrightarrow> \<forall>e\<in>set es. LF \<notin> set e \<and> (e = [] \<or> last e \<noteq> CR) \<Longrightarrow>
   split_lines (joinLines es) = es"
proof (induction es rule: joinLines.induct)
  case 1
  then show ?case by simp
next
  case (2 e)
  then show ?case by (simp add: split_lines_no_LF)
next
  case (3 e e' es)
  then show ?case by (simp add: split_lines_line)
qed


subsection \<open>rendering\<close>

lemma rendered_Nil [simp]: "rendered [] = []"
  by (simp add: rendered_def)

lemma rendered_Cons [simp]: "rendered (e # es) = e @ LF # rendered es"
  by (simp add: rendered_def)

lemma rendered_append [simp]: "rendered (xs @ ys) = rendered xs @ rendered ys"
  by (simp add: rendered_def)

lemma joinLines_snoc: "joinLines (xs @ [e]) = rendered xs @ e"
  by (induction xs rule: joinLines.induct) simp_all

lemma dropTrailingBlank_Nil [simp]: "dropTrailingBlank [] = []"
  by (simp add: dropTrailingBlank_def)

lemma dropTrailingBlank_snoc:
  "dropTrailingBlank (xs @ [e]) = (if e = [] then dropTrailingBlank xs else xs @ [e])"
  by (simp add: dropTrailingBlank_def)

lemma dropTrailingBlank_append_blank:
  "\<forall>y\<in>set ys. y = [] \<Longrightarrow> dropTrailingBlank (xs @ ys) = dropTrailingBlank xs"
  by (induction ys rule: rev_induct) (simp_all add: dropTrailingBlank_snoc flip: append_assoc)

lemma dropTrailingBlank_decomp:
  "\<exists>ys. es = dropTrailingBlank es @ ys \<and> (\<forall>y\<in>set ys. y = [])"
proof -
  have "rev (takeWhile (\<lambda>e. e = []) (rev es) @ dropWhile (\<lambda>e. e = []) (rev es)) = es"
    by (simp only: takeWhile_dropWhile_id rev_rev_ident)
  then have "es = dropTrailingBlank es @ rev (takeWhile (\<lambda>e. e = []) (rev es))"
    by (simp only: rev_append dropTrailingBlank_def)
  moreover have "\<forall>y\<in>set (rev (takeWhile (\<lambda>e. e = []) (rev es))). y = []"
    using set_takeWhileD [of _ "\<lambda>e. e = []" "rev es"] by auto
  ultimately show ?thesis by blast
qed

lemma set_dropTrailingBlank: "set (dropTrailingBlank es) \<subseteq> set es"
  using set_dropWhileD [of _ "\<lambda>e. e = []" "rev es"] by (auto simp: dropTrailingBlank_def)

lemma trimEnd_rendered:
  "\<forall>e\<in>set es. e = [] \<or> \<not> isWhiteSpace (last e) \<Longrightarrow>
   trimEnd (rendered es) = joinLines (dropTrailingBlank es)"
proof (induction es rule: rev_induct)
  case Nil
  then show ?case by simp
next
  case (snoc e es)
  have lf: "isWhiteSpace LF" by (simp add: isWhiteSpace_def)
  have "trimEnd (rendered (es @ [e])) = trimEnd ((rendered es @ e) @ [LF])"
    by simp
  also have "\<dots> = trimEnd (rendered es @ e)"
    using lf by (rule trimEnd_snoc_ws)
  finally have step: "trimEnd (rendered (es @ [e])) = trimEnd (rendered es @ e)" .
  show ?case
  proof (cases "e = []")
    case True
    with step snoc show ?thesis by (simp add: dropTrailingBlank_snoc)
  next
    case False
    with snoc.prems have "\<not> isWhiteSpace (last (rendered es @ e))" by simp
    with False have "trimEnd (rendered es @ e) = rendered es @ e"
      by (intro trimEnd_keeps) simp_all
    with step False show ?thesis by (simp add: dropTrailingBlank_snoc joinLines_snoc)
  qed
qed

subsection \<open>the loop\<close>

lemma formatLine_blank:
  "trim raw = [] \<Longrightarrow>
   formatLine ic kb st raw = st\<lparr>formatted := formatted st @ (if kb then [LF] else [])\<rparr>"
  by (simp add: formatLine_def)

lemma formatLine_nonblank:
  "trim raw \<noteq> [] \<Longrightarrow>
   formatLine ic kb st raw =
     \<lparr>formatted = formatted st @ linePrefix ic (depth st) (preserveWhitespace st) (trim raw) @ trim raw @ [LF],
      depth = nextDepth (depth st) (preserveWhitespace st) (trim raw),
      preserveWhitespace = nextVerbatim (preserveWhitespace st) (trim raw)\<rparr>"
  by (simp add: formatLine_def Let_def linePrefix_def nextDepth_def nextVerbatim_def)

lemma formatLoop_formatted:
  "formatted (formatLoop ic kb raws st) =
   formatted st @ rendered (outLines ic kb (depth st) (preserveWhitespace st) raws)"
proof (induction raws arbitrary: st)
  case Nil
  then show ?case by simp
next
  case (Cons raw rest)
  show ?case
  proof (cases "trim raw = []")
    case True
    then show ?thesis by (simp add: Cons.IH formatLine_blank)
  next
    case False
    then show ?thesis by (simp add: Cons.IH formatLine_nonblank)
  qed
qed

lemma formatXml_outLines:
  "formatXml t opts settings =
   trimEnd (rendered (outLines (indentChar_of opts) (keepBlank_of settings) 0 False (split_lines t)))"
  by (simp add: formatXml_def formatLoop_formatted initialState_def)


subsection \<open>the lines written\<close>

lemma set_repeat: "set (repeat ic k) \<subseteq> set ic"
  by (auto simp: repeat_def)

lemma linePrefix_repeat: "\<exists>k. linePrefix ic d pw ln = repeat ic k"
proof -
  have a: "\<exists>k. [] = repeat ic k" by (rule exI [of _ 0]) (simp add: repeat_def)
  have b: "\<exists>k. indent ic x = repeat ic k" for x unfolding indent_def by (rule exI) (rule refl)
  show ?thesis using a b by (simp add: linePrefix_def)
qed

lemma set_linePrefix: "set (linePrefix ic d pw ln) \<subseteq> set ic"
proof -
  obtain k where "linePrefix ic d pw ln = repeat ic k" using linePrefix_repeat by blast
  then show ?thesis using set_repeat [of ic k] by simp
qed


lemma outLines_shape:
  "e \<in> set (outLines ic kb d pw raws) \<Longrightarrow>
   e = [] \<or> (\<exists>raw\<in>set raws. \<exists>k. trim raw \<noteq> [] \<and> e = repeat ic k @ trim raw)"
proof (induction raws arbitrary: d pw)
  case Nil
  then show ?case by simp
next
  case (Cons raw rest)
  show ?case
  proof (cases "trim raw = []")
    case True
    with Cons.prems have "e = [] \<or> e \<in> set (outLines ic kb d pw rest)"
      by (auto split: if_splits)
    with Cons.IH show ?thesis by auto
  next
    case False
    with Cons.prems have "e = linePrefix ic d pw (trim raw) @ trim raw
        \<or> e \<in> set (outLines ic kb (nextDepth d pw (trim raw)) (nextVerbatim pw (trim raw)) rest)"
      by simp
    then show ?thesis
    proof
      assume "e = linePrefix ic d pw (trim raw) @ trim raw"
      with False linePrefix_repeat [of ic d pw "trim raw"] show ?thesis by auto
    next
      assume "e \<in> set (outLines ic kb (nextDepth d pw (trim raw)) (nextVerbatim pw (trim raw)) rest)"
      with Cons.IH show ?thesis by auto
    qed
  qed
qed

lemma outLines_last:
  assumes "e \<in> set (outLines ic kb d pw raws)"
  shows "e = [] \<or> \<not> isWhiteSpace (last e)"
proof -
  from outLines_shape [OF assms] show ?thesis
  proof
    assume "e = []" then show ?thesis ..
  next
    assume "\<exists>raw\<in>set raws. \<exists>k. trim raw \<noteq> [] \<and> e = repeat ic k @ trim raw"
    then obtain raw k where ne: "trim raw \<noteq> []" and e: "e = repeat ic k @ trim raw" by blast
    from trim_solid [OF ne] e ne show ?thesis by (simp add: solid_def)
  qed
qed

lemma outLines_trim:
  assumes "\<forall>c\<in>set ic. isWhiteSpace c" and "e \<in> set (outLines ic kb d pw raws)"
  shows "\<exists>k. e = repeat ic k @ trim e"
proof -
  from outLines_shape [OF assms(2)] show ?thesis
  proof
    assume "e = []"
    then have "e = repeat ic 0 @ trim e" by (simp add: repeat_def)
    then show ?thesis ..
  next
    assume "\<exists>raw\<in>set raws. \<exists>k. trim raw \<noteq> [] \<and> e = repeat ic k @ trim raw"
    then obtain raw k where ne: "trim raw \<noteq> []" and e: "e = repeat ic k @ trim raw" by blast
    have "\<forall>c\<in>set (repeat ic k). isWhiteSpace c" using assms(1) set_repeat [of ic k] by auto
    then have "trim e = trim raw" unfolding e using trim_solid [OF ne] by (rule trim_prefix_solid)
    with e show ?thesis by auto
  qed
qed

lemma outLines_splittable:
  assumes "LF \<notin> set ic" and "\<forall>raw\<in>set raws. LF \<notin> set raw"
    and "e \<in> set (outLines ic kb d pw raws)"
  shows "LF \<notin> set e \<and> (e = [] \<or> last e \<noteq> CR)"
proof -
  have cr: "isWhiteSpace CR" by (simp add: isWhiteSpace_def)
  from outLines_last [OF assms(3)] cr have "e = [] \<or> last e \<noteq> CR" by auto
  moreover from outLines_shape [OF assms(3)] have "LF \<notin> set e"
  proof
    assume "e = []" then show ?thesis by simp
  next
    assume "\<exists>raw\<in>set raws. \<exists>k. trim raw \<noteq> [] \<and> e = repeat ic k @ trim raw"
    then obtain raw k where raw: "raw \<in> set raws" and e: "e = repeat ic k @ trim raw" by blast
    from raw assms(2) set_trim [of raw] have "LF \<notin> set (trim raw)" by auto
    moreover from assms(1) set_repeat [of ic k] have "LF \<notin> set (repeat ic k)" by auto
    ultimately show ?thesis using e by simp
  qed
  ultimately show ?thesis by simp
qed

lemma trim_written:
  assumes "\<forall>c\<in>set ic. isWhiteSpace c" and "trim raw \<noteq> []"
  shows "trim (linePrefix ic d pw (trim raw) @ trim raw) = trim raw"
proof -
  have "\<forall>c\<in>set (linePrefix ic d pw (trim raw)). isWhiteSpace c"
    using assms(1) set_linePrefix [of ic d pw "trim raw"] by auto
  then show ?thesis using trim_solid [OF assms(2)] by (rule trim_prefix_solid)
qed

lemma outLines_fix:
  assumes "\<forall>c\<in>set ic. isWhiteSpace c"
  shows "outLines ic kb d pw (outLines ic kb d pw raws) = outLines ic kb d pw raws"
proof (induction raws arbitrary: d pw)
  case Nil
  then show ?case by simp
next
  case (Cons raw rest)
  show ?case
  proof (cases "trim raw = []")
    case True
    with Cons.IH [of d pw] show ?thesis by (cases kb) simp_all
  next
    case False
    with trim_written [OF assms False] show ?thesis by (simp add: Cons.IH)
  qed
qed

lemma outLines_blank:
  "\<forall>y\<in>set ys. trim y = [] \<Longrightarrow> \<forall>e\<in>set (outLines ic kb d pw ys). e = []"
  by (induction ys) auto

lemma outLines_append:
  "\<forall>y\<in>set ys. trim y = [] \<Longrightarrow>
   \<exists>zs. outLines ic kb d pw (xs @ ys) = outLines ic kb d pw xs @ zs \<and> (\<forall>z\<in>set zs. z = [])"
proof (induction xs arbitrary: d pw)
  case Nil
  then show ?case using outLines_blank [of ys ic kb d pw] by simp
next
  case (Cons raw rest)
  show ?case
  proof (cases "trim raw = []")
    case True
    from Cons.IH [OF Cons.prems, of d pw] True show ?thesis by auto
  next
    case False
    from Cons.IH [OF Cons.prems, of "nextDepth d pw (trim raw)" "nextVerbatim pw (trim raw)"] False
    show ?thesis by auto
  qed
qed


lemma outLines_keepBlank:
  assumes "\<forall>c\<in>set ic. isWhiteSpace c"
  shows "map trim (outLines ic True d pw raws) = map trim raws"
proof (induction raws arbitrary: d pw)
  case Nil
  then show ?case by simp
next
  case (Cons raw rest)
  show ?case
  proof (cases "trim raw = []")
    case True
    then show ?thesis by (simp add: Cons.IH)
  next
    case False
    with trim_written [OF assms False] show ?thesis by (simp add: Cons.IH)
  qed
qed

lemma indentChar_of_ws: "\<forall>c\<in>set (indentChar_of opts). isWhiteSpace c"
  using set_repeat [of "[SP]" "indentSize opts"] by (auto simp: indentChar_of_def isWhiteSpace_def)

lemma indentChar_of_noLF: "LF \<notin> set (indentChar_of opts)"
  using set_repeat [of "[SP]" "indentSize opts"] by (auto simp: indentChar_of_def)


subsection \<open>the result\<close>

lemma formatXml_joinLines:
  "formatXml t opts settings =
   joinLines (dropTrailingBlank
     (outLines (indentChar_of opts) (keepBlank_of settings) 0 False (split_lines t)))"
  unfolding formatXml_outLines
  by (rule trimEnd_rendered) (blast dest: outLines_last)

lemma outLines_of_written:
  assumes es: "es = outLines (indentChar_of opts) kb 0 False raws"
  shows "dropTrailingBlank (outLines (indentChar_of opts) kb 0 False (dropTrailingBlank es)) =
         dropTrailingBlank es"
proof -
  let ?ic = "indentChar_of opts"
  let ?D = "dropTrailingBlank es"
  obtain ys where ys: "es = ?D @ ys" "\<forall>y\<in>set ys. y = []"
    using dropTrailingBlank_decomp by blast
  from ys(2) have "\<forall>y\<in>set ys. trim y = []" by auto
  then obtain zs where zs: "outLines ?ic kb 0 False (?D @ ys) = outLines ?ic kb 0 False ?D @ zs"
      "\<forall>z\<in>set zs. z = []"
    using outLines_append by blast
  have "outLines ?ic kb 0 False es = es"
    unfolding es using indentChar_of_ws by (rule outLines_fix)
  with ys(1) zs(1) have "es = outLines ?ic kb 0 False ?D @ zs" by simp
  then have "dropTrailingBlank es = dropTrailingBlank (outLines ?ic kb 0 False ?D @ zs)" by simp
  also have "\<dots> = dropTrailingBlank (outLines ?ic kb 0 False ?D)"
    using zs(2) by (rule dropTrailingBlank_append_blank)
  finally show ?thesis by simp
qed

lemma split_lines_formatXml:
  "split_lines (formatXml t opts settings) =
   (let D = dropTrailingBlank
              (outLines (indentChar_of opts) (keepBlank_of settings) 0 False (split_lines t))
    in if D = [] then [Nil] else D)"
proof -
  let ?es = "outLines (indentChar_of opts) (keepBlank_of settings) 0 False (split_lines t)"
  let ?D = "dropTrailingBlank ?es"
  have pieces: "\<forall>raw\<in>set (split_lines t). LF \<notin> set raw"
    using split_lines_pieces by blast
  have "\<forall>e\<in>set ?D. LF \<notin> set e \<and> (e = [] \<or> last e \<noteq> CR)"
  proof
    fix e assume "e \<in> set ?D"
    then have "e \<in> set ?es" using set_dropTrailingBlank by blast
    with indentChar_of_noLF pieces show "LF \<notin> set e \<and> (e = [] \<or> last e \<noteq> CR)"
      by (rule outLines_splittable)
  qed
  then have "?D \<noteq> [] \<Longrightarrow> split_lines (joinLines ?D) = ?D"
    by (rule split_lines_joinLines [rotated])
  then show ?thesis by (auto simp: formatXml_joinLines Let_def)
qed

lemma formatXml_fixpoint:
  "formatXml (formatXml t opts settings) opts settings = formatXml t opts settings"
proof -
  let ?ic = "indentChar_of opts" and ?kb = "keepBlank_of settings"
  let ?es = "outLines ?ic ?kb 0 False (split_lines t)"
  let ?D = "dropTrailingBlank ?es"
  have again: "formatXml (formatXml t opts settings) opts settings =
      joinLines (dropTrailingBlank (outLines ?ic ?kb 0 False (if ?D = [] then [Nil] else ?D)))"
    by (simp add: formatXml_joinLines [of "formatXml t opts settings"] split_lines_formatXml Let_def)
  show ?thesis
  proof (cases "?D = []")
    case True
    have "dropTrailingBlank (outLines ?ic ?kb 0 False [Nil]) = []"
      by (simp add: dropTrailingBlank_def)
    with True again show ?thesis by (simp add: formatXml_joinLines)
  next
    case False
    have "dropTrailingBlank (outLines ?ic ?kb 0 False ?D) = ?D"
      by (rule outLines_of_written) (rule refl)
    with False again show ?thesis by (simp add: formatXml_joinLines)
  qed
qed



lemma outLines_blank_iff:
  assumes "\<forall>c\<in>set ic. isWhiteSpace c" and "e \<in> set (outLines ic kb d pw raws)"
  shows "trim e = [] \<longleftrightarrow> e = []"
proof
  assume t: "trim e = []"
  from outLines_trim [OF assms] obtain k where k: "e = repeat ic k @ trim e" by blast
  from outLines_last [OF assms(2)] show "e = []"
  proof
    assume "e = []" then show ?thesis .
  next
    assume nl: "\<not> isWhiteSpace (last e)"
    show ?thesis
    proof (rule ccontr)
      assume ne: "e \<noteq> []"
      with k t have "last e \<in> set (repeat ic k)" by (metis append_Nil2 last_in_set)
      with set_repeat [of ic k] assms(1) nl show False by auto
    qed
  qed
next
  assume "e = []" then show "trim e = []" by simp
qed

lemma map_dropTrailingBlank:
  "\<forall>e\<in>set es. f e = [] \<longleftrightarrow> e = [] \<Longrightarrow>
   map f (dropTrailingBlank es) = dropTrailingBlank (map f es)"
  by (induction es rule: rev_induct) (simp_all add: dropTrailingBlank_snoc)

lemma formatXml_keepBlank_lines:
  assumes "keepBlank_of settings"
  shows "map trim (split_lines (formatXml t opts settings)) =
         (if dropTrailingBlank (map trim (split_lines t)) = [] then [Nil]
          else dropTrailingBlank (map trim (split_lines t)))"
proof -
  let ?es = "outLines (indentChar_of opts) True 0 False (split_lines t)"
  have "\<forall>e\<in>set ?es. trim e = [] \<longleftrightarrow> e = []"
    using indentChar_of_ws outLines_blank_iff by blast
  then have "map trim (dropTrailingBlank ?es) = dropTrailingBlank (map trim ?es)"
    by (rule map_dropTrailingBlank)
  also have "map trim ?es = map trim (split_lines t)"
    using indentChar_of_ws by (rule outLines_keepBlank)
  finally have m: "map trim (dropTrailingBlank ?es) = dropTrailingBlank (map trim (split_lines t))" .
  then have "dropTrailingBlank ?es = [] \<longleftrightarrow> dropTrailingBlank (map trim (split_lines t)) = []"
    by (metis map_is_Nil_conv)
  with m assms show ?thesis by (simp add: split_lines_formatXml Let_def)
qed

section \<open>Evaluations at concrete texts\<close>

lemma eval_single_line:
  "formatXml (str ''<a><b/></a>'') scenarioOptions noSettings = str ''<a><b/></a>''"
  by code_simp

lemma eval_three_lines:
  "formatXml (joinLines [str ''<a>'', str ''<b/>'', str ''</a>'']) scenarioOptions noSettings =
   joinLines [str ''<a>'', str ''  <b/>'', str ''</a>'']"
  by code_simp

lemma eval_blank_run:
  "formatXml (joinLines [str ''<a/>'', [], [], [], str ''<b/>''])
     scenarioOptions (settingsOf None (Some True) (Some 1)) =
   joinLines [str ''<a/>'', [], [], [], str ''<b/>'']"
  by code_simp

lemma eval_indented:
  "formatXml (str ''  <a/>'') scenarioOptions noSettings = str ''<a/>''"
  by code_simp

lemma keepBlank_of_settingsOf: "keepBlank_of (settingsOf en keep cap) = (keep \<noteq> Some False)"
  by (simp add: keepBlank_of_def format_preserveNewLines_def xml_format_def settingsOf_def)

lemma formatXml_cap_ignored:
  "formatXml t opts (settingsOf en keep cap) = formatXml t opts (settingsOf en keep cap')"
  by (simp add: formatXml_def keepBlank_of_settingsOf)

lemma trimEnd_trimEnd: "trimEnd (trimEnd s) = trimEnd s"
proof (cases "trimEnd s = []")
  case True
  then show ?thesis by simp
next
  case False
  from trimEnd_last [OF False] False show ?thesis by (rule trimEnd_keeps [rotated])
qed

section \<open>The claims\<close>

subsection \<open>C1: scenario A\<close>

text \<open>
  C1, as the specification states it: the single line \<open><a><b/></a>\<close>, formatted with a unit
  of two spaces, becomes the three lines \<open><a>\<close>, \<open>  <b/>\<close>, \<open></a>\<close>. It does not: the loop
  writes one line for each line it reads, and this line contains \<open>/>\<close>, so it is written at
  depth 0 as it is.
\<close>

theorem scenario_A_counterexample:
  "formatXml (str ''<a><b/></a>'') scenarioOptions noSettings \<noteq>
   joinLines [str ''<a>'', str ''  <b/>'', str ''</a>'']"
  by code_simp

text \<open>
  C1, amended: the single line \<open><a><b/></a>\<close> is returned unchanged and whole-document
  formatting gives no edit; the three-line output of the scenario is what the formatter
  returns when the three tags already stand on lines of their own.
\<close>

theorem scenario_A_lines_kept:
  "formatXml (str ''<a><b/></a>'') scenarioOptions noSettings = str ''<a><b/></a>'' \<and>
   formatXmlDocument (singleLineDocument (str ''<a><b/></a>'')) scenarioOptions noSettings = [] \<and>
   formatXml (joinLines [str ''<a>'', str ''<b/>'', str ''</a>'']) scenarioOptions noSettings =
     joinLines [str ''<a>'', str ''  <b/>'', str ''</a>'']"
  using eval_single_line eval_three_lines
  by (simp add: formatXmlDocument_def getText_def singleLineDocument_def)

subsection \<open>C2: CDATA spans\<close>

text \<open>
  C2: the text between a CDATA open marker and its close marker is to be reproduced exactly,
  interior lines keeping their leading and trailing whitespace. The loop trims every line
  before it looks at the \<open>preserveWhitespace\<close> flag and appends the trimmed line, so the
  interior line \<open>  raw  \<close> of the span below comes out as \<open>raw\<close>.
\<close>

theorem cdata_interior_line_trimmed:
  "formatXml (joinLines [str ''<a>'', str ''<![CDATA['', str ''  raw  '', str '']]>'', str ''</a>''])
     scenarioOptions noSettings =
   joinLines [str ''<a>'', str ''  <![CDATA['', str ''raw'', str '']]>'', str ''</a>'']"
  by code_simp

subsection \<open>C3: the cap on preserved blank lines\<close>

text \<open>
  C3, as the specification states it: with \<open>preserveNewLines\<close> true and
  \<open>maxPreserveNewLines\<close> 1, three blank lines between two siblings are cut to one. They are
  not: \<open>formatXml\<close> never reads \<open>maxPreserveNewLines\<close>.
\<close>

theorem scenario_B_counterexample:
  "formatXml (joinLines [str ''<a/>'', [], [], [], str ''<b/>''])
     scenarioOptions (settingsOf None (Some True) (Some 1)) \<noteq>
   joinLines [str ''<a/>'', [], str ''<b/>'']"
  by code_simp

text \<open>
  C3, amended: the result does not depend on \<open>maxPreserveNewLines\<close>; unless
  \<open>preserveNewLines\<close> is false, the trimmed lines of the result are the trimmed lines of the
  input up to its last non-blank line, every blank line among them kept; so the three
  blank lines of the scenario stay three.
\<close>

theorem blank_lines_not_capped:
  "formatXml t opts (settingsOf en keep cap) = formatXml t opts (settingsOf en keep None) \<and>
   (keep \<noteq> Some False \<longrightarrow>
      map trim (split_lines (formatXml t opts (settingsOf en keep cap))) =
        (if dropTrailingBlank (map trim (split_lines t)) = [] then [Nil]
         else dropTrailingBlank (map trim (split_lines t)))) \<and>
   formatXml (joinLines [str ''<a/>'', [], [], [], str ''<b/>''])
     scenarioOptions (settingsOf None (Some True) (Some 1)) =
   joinLines [str ''<a/>'', [], [], [], str ''<b/>'']"
proof (intro conjI impI)
  show "formatXml t opts (settingsOf en keep cap) = formatXml t opts (settingsOf en keep None)"
    by (rule formatXml_cap_ignored)
next
  assume "keep \<noteq> Some False"
  then have "keepBlank_of (settingsOf en keep cap)" by (simp add: keepBlank_of_settingsOf)
  then show "map trim (split_lines (formatXml t opts (settingsOf en keep cap))) =
        (if dropTrailingBlank (map trim (split_lines t)) = [] then [Nil]
         else dropTrailingBlank (map trim (split_lines t)))"
    by (rule formatXml_keepBlank_lines)
next
  show "formatXml (joinLines [str ''<a/>'', [], [], [], str ''<b/>''])
     scenarioOptions (settingsOf None (Some True) (Some 1)) =
   joinLines [str ''<a/>'', [], [], [], str ''<b/>'']"
    by (rule eval_blank_run)
qed

text \<open>The amended C3 at the scenario's input, where \<open>preserveNewLines\<close> is true.\<close>

theorem blank_lines_not_capped_witness:
  "Some True \<noteq> Some False \<and>
   map trim (split_lines (formatXml (joinLines [str ''<a/>'', [], [], [], str ''<b/>''])
      scenarioOptions (settingsOf None (Some True) (Some 1)))) =
   [str ''<a/>'', [], [], [], str ''<b/>'']"
proof -
  define T where "T = joinLines [str ''<a/>'', [], [], [], str ''<b/>'']"
  have d: "dropTrailingBlank (map trim (split_lines T)) = [str ''<a/>'', [], [], [], str ''<b/>'']"
    unfolding T_def by code_simp
  have k: "Some True \<noteq> Some False" by simp
  from blank_lines_not_capped [of T scenarioOptions None "Some True" "Some 1"] k
  have "map trim (split_lines (formatXml T scenarioOptions (settingsOf None (Some True) (Some 1)))) =
        (if dropTrailingBlank (map trim (split_lines T)) = [] then [Nil]
         else dropTrailingBlank (map trim (split_lines T)))"
    by blast
  with d k show ?thesis unfolding T_def by simp
qed

subsection \<open>C4: idempotence\<close>

text \<open>
  C4: formatting a formatted text returns it unchanged, for every text, options and
  settings; so whole-document formatting of a document whose content is already a result
  of the formatter gives the empty edit list.
\<close>

theorem formatXml_idempotent:
  "formatXml (formatXml t opts settings) opts settings = formatXml t opts settings \<and>
   (content document = formatXml t opts settings \<longrightarrow>
      formatXmlDocument document opts settings = [])"
  by (simp add: formatXml_fixpoint formatXmlDocument_def getText_def)

text \<open>C4 at the text \<open>  <a/>\<close>, whose formatted form \<open><a/>\<close> is the content of the document.\<close>

theorem formatXml_idempotent_witness:
  "content (singleLineDocument (str ''<a/>'')) = formatXml (str ''  <a/>'') scenarioOptions noSettings \<and>
   formatXml (str ''<a/>'') scenarioOptions noSettings = str ''<a/>'' \<and>
   formatXmlDocument (singleLineDocument (str ''<a/>'')) scenarioOptions noSettings = []"
proof -
  have c: "content (singleLineDocument (str ''<a/>'')) =
      formatXml (str ''  <a/>'') scenarioOptions noSettings"
    by (simp add: eval_indented singleLineDocument_def)
  from formatXml_idempotent [of "str ''  <a/>''" scenarioOptions noSettings
      "singleLineDocument (str ''<a/>'')"] c
  show ?thesis by (simp add: eval_indented)
qed

subsection \<open>C5: the edit of whole-document formatting\<close>

text \<open>
  C5: whole-document formatting returns the empty list exactly when the result of
  \<open>formatXml\<close> (which is trimmed at its end) equals the text; otherwise it returns one edit,
  from the position of offset 0 to the position of the text's length, with the result as
  its new text.
\<close>

theorem whole_document_edit:
  "(formatXmlDocument document opts settings = []) =
     (formatXml (content document) opts settings = content document) \<and>
   (formatXml (content document) opts settings \<noteq> content document \<longrightarrow>
      formatXmlDocument document opts settings =
        [\<lparr>range_edit = \<lparr>start_pos = positionAt document 0,
                         end_pos = positionAt document (length (content document))\<rparr>,
          newText = formatXml (content document) opts settings\<rparr>]) \<and>
   trimEnd (formatXml (content document) opts settings) = formatXml (content document) opts settings"
  by (simp add: formatXmlDocument_def getText_def Let_def formatXml_def trimEnd_trimEnd)

text \<open>C5 at the document \<open>  <a/>\<close>: one edit over the six code units, replacing them by \<open><a/>\<close>.\<close>

theorem whole_document_edit_witness:
  "formatXml (content (singleLineDocument (str ''  <a/>''))) scenarioOptions noSettings \<noteq>
     content (singleLineDocument (str ''  <a/>'')) \<and>
   formatXmlDocument (singleLineDocument (str ''  <a/>'')) scenarioOptions noSettings =
     [\<lparr>range_edit = \<lparr>start_pos = \<lparr>line = 0, character = 0\<rparr>,
                      end_pos = \<lparr>line = 0, character = 6\<rparr>\<rparr>,
       newText = str ''<a/>''\<rparr>]"
proof -
  have c: "content (singleLineDocument (str ''  <a/>'')) = str ''  <a/>''"
    by (simp add: singleLineDocument_def)
  have ne: "str ''<a/>'' \<noteq> str ''  <a/>''" by (simp add: str_def)
  have p: "positionAt (singleLineDocument (str ''  <a/>'')) 0 = \<lparr>line = 0, character = 0\<rparr>"
    "positionAt (singleLineDocument (str ''  <a/>'')) (length (str ''  <a/>'')) = \<lparr>line = 0, character = 6\<rparr>"
    by (simp_all add: singleLineDocument_def str_def)
  from whole_document_edit [of "singleLineDocument (str ''  <a/>'')" scenarioOptions noSettings]
  show ?thesis by (simp add: c eval_indented ne p)
qed

subsection \<open>C6: the settings gate\<close>

text \<open>
  C6: when the resolved settings have \<open>xml.format.enable\<close> equal to false, the document
  formatting handler and the range formatting handler both return the empty edit list.
\<close>

theorem format_disabled_no_edits:
  assumes "format_enable (getDocumentSettings srv (textDocument params)) = Some False"
    and "format_enable (getDocumentSettings srv (textDocument_r rparams)) = Some False"
  shows "onDocumentFormatting srv params = [] \<and> onDocumentRangeFormatting srv rparams = []"
  using assms
  by (simp add: onDocumentFormatting_def onDocumentRangeFormatting_def split: option.splits)

text \<open>C6 at a server holding one document that formatting would change, with the gate closed.\<close>

theorem format_disabled_no_edits_witness:
  "format_enable (getDocumentSettings
      (serverWith (singleLineDocument (str ''  <a/>'')) (settingsOf (Some False) None None))
      ''file:///doc.xml'') = Some False \<and>
   onDocumentFormatting
     (serverWith (singleLineDocument (str ''  <a/>'')) (settingsOf (Some False) None None))
     \<lparr>textDocument = ''file:///doc.xml'', options = scenarioOptions\<rparr> = [] \<and>
   onDocumentRangeFormatting
     (serverWith (singleLineDocument (str ''  <a/>'')) (settingsOf (Some False) None None))
     \<lparr>textDocument_r = ''file:///doc.xml'',
      range_r = \<lparr>start_pos = \<lparr>line = 0, character = 0\<rparr>, end_pos = \<lparr>line = 0, character = 6\<rparr>\<rparr>,
      options_r = scenarioOptions\<rparr> = []"
proof -
  let ?srv = "serverWith (singleLineDocument (str ''  <a/>'')) (settingsOf (Some False) None None)"
  have h: "format_enable (getDocumentSettings ?srv ''file:///doc.xml'') = Some False"
    by (simp add: getDocumentSettings_def serverWith_def settingsOf_def format_enable_def xml_format_def)
  from format_disabled_no_edits [of ?srv "\<lparr>textDocument = ''file:///doc.xml'', options = scenarioOptions\<rparr>"
      "\<lparr>textDocument_r = ''file:///doc.xml'',
      range_r = \<lparr>start_pos = \<lparr>line = 0, character = 0\<rparr>, end_pos = \<lparr>line = 0, character = 6\<rparr>\<rparr>,
      options_r = scenarioOptions\<rparr>"] h
  show ?thesis by simp
qed

subsection \<open>C7: depth is never negative\<close>

text \<open>
  C7: in every state of the walk over any text, \<open>depth\<close> is at least 0; an iteration started
  at a depth of at least 0 ends at one; and an iteration that takes the closing-tag branch
  sets \<open>depth\<close> to the maximum of 0 and \<open>depth - 1\<close>. The model has no error value: every
  iteration returns a state.
\<close>

theorem depth_never_negative:
  "(\<forall>st\<in>set (loopStates (indentChar_of opts) (keepBlank_of settings) (split_lines t) initialState).
      0 \<le> depth st) \<and>
   (0 \<le> depth st' \<longrightarrow> 0 \<le> depth (formatLine ic kb st' raw)) \<and>
   (trim raw \<noteq> [] \<and> \<not> startsWith (trim raw) (str ''<?'') \<and> \<not> startsWith (trim raw) (str ''<!--'') \<and>
    \<not> includes_str (trim raw) (str ''<![CDATA['') \<and> \<not> preserveWhitespace st' \<and>
    \<not> includes_str (trim raw) (str ''/>'') \<and> startsWith (trim raw) (str ''</'') \<longrightarrow>
      depth (formatLine ic kb st' raw) = max 0 (depth st' - 1))"
proof (intro conjI ballI impI)
  fix st
  assume "st \<in> set (loopStates (indentChar_of opts) (keepBlank_of settings) (split_lines t) initialState)"
  moreover have "0 \<le> depth initialState" by (simp add: initialState_def)
  ultimately show "0 \<le> depth st" by (rule loopStates_depth_nonneg [rotated])
next
  assume "0 \<le> depth st'"
  then show "0 \<le> depth (formatLine ic kb st' raw)" by (rule formatLine_depth_nonneg)
next
  assume "trim raw \<noteq> [] \<and> \<not> startsWith (trim raw) (str ''<?'') \<and> \<not> startsWith (trim raw) (str ''<!--'') \<and>
    \<not> includes_str (trim raw) (str ''<![CDATA['') \<and> \<not> preserveWhitespace st' \<and>
    \<not> includes_str (trim raw) (str ''/>'') \<and> startsWith (trim raw) (str ''</'')"
  then show "depth (formatLine ic kb st' raw) = max 0 (depth st' - 1)"
    by (simp add: formatLine_closing_tag)
qed

text \<open>C7 at the text of two unmatched closing tags, and at the closing tag \<open></a>\<close> met at depth 0.\<close>

theorem depth_never_negative_witness:
  "formatLoop (indentChar_of scenarioOptions) (keepBlank_of noSettings)
      (split_lines (joinLines [str ''</a>'', str ''</b>''])) initialState
     \<in> set (loopStates (indentChar_of scenarioOptions) (keepBlank_of noSettings)
              (split_lines (joinLines [str ''</a>'', str ''</b>''])) initialState) \<and>
   0 \<le> depth (formatLoop (indentChar_of scenarioOptions) (keepBlank_of noSettings)
      (split_lines (joinLines [str ''</a>'', str ''</b>''])) initialState) \<and>
   0 \<le> depth initialState \<and>
   (trim (str ''</a>'') \<noteq> [] \<and> \<not> startsWith (trim (str ''</a>'')) (str ''<?'') \<and>
    \<not> startsWith (trim (str ''</a>'')) (str ''<!--'') \<and>
    \<not> includes_str (trim (str ''</a>'')) (str ''<![CDATA['') \<and> \<not> preserveWhitespace initialState \<and>
    \<not> includes_str (trim (str ''</a>'')) (str ''/>'') \<and> startsWith (trim (str ''</a>'')) (str ''</'')) \<and>
   depth (formatLine (indentChar_of scenarioOptions) True initialState (str ''</a>'')) = 0"
proof -
  let ?ic = "indentChar_of scenarioOptions" and ?kb = "keepBlank_of noSettings"
  let ?ls = "split_lines (joinLines [str ''</a>'', str ''</b>''])"
  have m: "formatLoop ?ic ?kb ?ls initialState \<in> set (loopStates ?ic ?kb ?ls initialState)"
    using last_in_set [OF loopStates_not_Nil [of ?ic ?kb ?ls initialState]]
    by (simp only: last_loopStates)
  have c: "trim (str ''</a>'') \<noteq> [] \<and> \<not> startsWith (trim (str ''</a>'')) (str ''<?'') \<and>
    \<not> startsWith (trim (str ''</a>'')) (str ''<!--'') \<and>
    \<not> includes_str (trim (str ''</a>'')) (str ''<![CDATA['') \<and> \<not> preserveWhitespace initialState \<and>
    \<not> includes_str (trim (str ''</a>'')) (str ''/>'') \<and> startsWith (trim (str ''</a>'')) (str ''</'')"
    by code_simp
  have z: "0 \<le> depth initialState" "depth initialState = 0" by (simp_all add: initialState_def)
  from depth_never_negative [of scenarioOptions noSettings "joinLines [str ''</a>'', str ''</b>'']"
      initialState ?ic True "str ''</a>''"] m c z
  show ?thesis by (simp del: joinLines.simps)
qed

subsection \<open>C8: self-closing lines keep the depth\<close>

text \<open>
  C8: when the trimmed content of line \<open>i\<close> contains \<open>/>\<close>, the state after that line has the
  depth of the state before it, whatever the state and the other lines are.
\<close>

theorem self_closing_keeps_depth:
  assumes "i < length ls" and "includes_str (trim (ls ! i)) (str ''/>'')"
  shows "depth (loopStates ic kb ls st ! Suc i) = depth (loopStates ic kb ls st ! i)"
  using assms by (simp add: loopStates_Suc formatLine_self_closing)

text \<open>C8 at the line \<open>  <b/>  \<close> that follows \<open><a>\<close>.\<close>

theorem self_closing_keeps_depth_witness:
  "1 < length [str ''<a>'', str ''  <b/>  ''] \<and>
   includes_str (trim ([str ''<a>'', str ''  <b/>  ''] ! 1)) (str ''/>'') \<and>
   depth (loopStates (indentChar_of scenarioOptions) True [str ''<a>'', str ''  <b/>  ''] initialState ! Suc 1) =
   depth (loopStates (indentChar_of scenarioOptions) True [str ''<a>'', str ''  <b/>  ''] initialState ! 1)"
proof -
  have l: "1 < length [str ''<a>'', str ''  <b/>  '']" by simp
  have c: "includes_str (trim ([str ''<a>'', str ''  <b/>  ''] ! 1)) (str ''/>'')" by code_simp
  from self_closing_keeps_depth [OF l c] l c show ?thesis by blast
qed

subsection \<open>C9: range formatting\<close>

text \<open>
  C9: range formatting is the range adapter of the specification: the substring of the
  range, formatted alone from the fresh state, and one edit on the caller's range when the
  result differs. Its new text is the one whole-document formatting gives for a document
  whose content is that substring; it returns at most one edit, and only on the caller's range.
\<close>

theorem range_formatting_refines:
  "formatXmlDocumentRange document rg opts settings = spec_rangeAdapter document rg opts settings \<and>
   (content whole = getText document (Some rg) \<longrightarrow>
      map newText (formatXmlDocumentRange document rg opts settings) =
      map newText (formatXmlDocument whole opts settings)) \<and>
   (\<forall>e\<in>set (formatXmlDocumentRange document rg opts settings). range_edit e = rg) \<and>
   length (formatXmlDocumentRange document rg opts settings) \<le> 1"
  by (simp add: formatXmlDocumentRange_def spec_rangeAdapter_def formatXmlDocument_def
      getText_def formatXml_def initialState_def Let_def)

text \<open>C9 at the range from offset 3 to offset 9 of the one-line document \<open><r>  <a/></r>\<close>.\<close>

theorem range_formatting_refines_witness:
  "content (singleLineDocument (str ''  <a/>'')) =
     getText (singleLineDocument (str ''<r>  <a/></r>''))
       (Some \<lparr>start_pos = \<lparr>line = 0, character = 3\<rparr>, end_pos = \<lparr>line = 0, character = 9\<rparr>\<rparr>) \<and>
   formatXmlDocumentRange (singleLineDocument (str ''<r>  <a/></r>''))
       \<lparr>start_pos = \<lparr>line = 0, character = 3\<rparr>, end_pos = \<lparr>line = 0, character = 9\<rparr>\<rparr>
       scenarioOptions noSettings =
     [\<lparr>range_edit = \<lparr>start_pos = \<lparr>line = 0, character = 3\<rparr>, end_pos = \<lparr>line = 0, character = 9\<rparr>\<rparr>,
       newText = str ''<a/>''\<rparr>]"
proof -
  let ?doc = "singleLineDocument (str ''<r>  <a/></r>'')"
  let ?rg = "\<lparr>start_pos = \<lparr>line = 0, character = 3\<rparr>, end_pos = \<lparr>line = 0, character = 9\<rparr>\<rparr>"
  have sub: "getText ?doc (Some ?rg) = str ''  <a/>''"
    by (simp add: getText_def substring_def singleLineDocument_def str_def)
  have c: "content (singleLineDocument (str ''  <a/>'')) = getText ?doc (Some ?rg)"
    unfolding sub by (simp add: singleLineDocument_def)
  have ne: "str ''<a/>'' \<noteq> str ''  <a/>''" by (simp add: str_def)
  have w: "map newText (formatXmlDocument (singleLineDocument (str ''  <a/>'')) scenarioOptions noSettings) =
      [str ''<a/>'']"
    by (simp add: formatXmlDocument_def getText_def singleLineDocument_def eval_indented ne)
  from range_formatting_refines [of ?doc ?rg scenarioOptions noSettings "singleLineDocument (str ''  <a/>'')"]
  have i: "content (singleLineDocument (str ''  <a/>'')) = getText ?doc (Some ?rg) \<longrightarrow>
      map newText (formatXmlDocumentRange ?doc ?rg scenarioOptions noSettings) =
      map newText (formatXmlDocument (singleLineDocument (str ''  <a/>'')) scenarioOptions noSettings)"
    and r: "\<forall>e\<in>set (formatXmlDocumentRange ?doc ?rg scenarioOptions noSettings). range_edit e = ?rg"
    by blast+
  from i c w
  have n: "map newText (formatXmlDocumentRange ?doc ?rg scenarioOptions noSettings) = [str ''<a/>'']"
    by simp
  from n obtain e where e: "formatXmlDocumentRange ?doc ?rg scenarioOptions noSettings = [e]"
    and t: "newText e = str ''<a/>''" by auto
  from r e have "range_edit e = ?rg" by simp
  with t have "e = \<lparr>range_edit = ?rg, newText = str ''<a/>''\<rparr>" by simp
  with e c show ?thesis by simp
qed

subsection \<open>C10: lines are neither split nor joined\<close>




end
